theory Spec2Isabelle
  imports Complex_Main "HOL-Library.Sublist" "HOL-Library.AList"
begin

section \<open>Python values used by \<open>Organize\<close>\<close>

text \<open>
  \<open>Organize\<close> (src/platereadertools.py, lines 8-71) reads a Gen5 text export line by line
  and fills one three-dimensional array and one time vector per read. Every exception the
  Python can raise inside the function is a value of \<open>pyerr\<close>; an exception ends the call,
  so a failing step returns \<open>Inl\<close> and nothing else of the state survives.
\<close>

datatype pyerr =
  IndexError | ValueError | KeyError | UnboundLocalError | ZeroDivisionError | OverflowError

text \<open>
  The floating-point numbers are those of the Python runtime, which is not part of the
  repository. The model takes them as a parameter: a type \<open>'f\<close> of floats with the
  operations that \<open>Organize\<close> applies to them.
  \<^item> \<open>float_of_str\<close> is \<open>float(s)\<close>, also used by numpy when a string is stored into a
    float array; \<open>None\<close> stands for the \<open>ValueError\<close> of an unreadable literal;
  \<^item> \<open>float_of_int\<close> is the conversion of the integer operand in \<open>s/60\<close>;
  \<^item> \<open>fadd\<close> and \<open>fdiv\<close> are \<open>+\<close> and \<open>/\<close> on floats, \<open>fzero\<close> tells whether a divisor is zero;
  \<^item> \<open>fval\<close> is the number that a float stands for: a rational for a finite float,
    \<open>Infinite\<close> for the two infinities, \<open>NotANumber\<close> for NaN;
  \<^item> \<open>nan\<close> is \<open>np.nan\<close>.
\<close>

datatype fvalue = Finite rat | Infinite | NotANumber

record 'f float_ops =
  float_of_str :: "string \<Rightarrow> 'f option"
  float_of_int :: "int \<Rightarrow> 'f"
  fadd :: "'f \<Rightarrow> 'f \<Rightarrow> 'f"
  fdiv :: "'f \<Rightarrow> 'f \<Rightarrow> 'f"
  fzero :: "'f \<Rightarrow> bool"
  fval :: "'f \<Rightarrow> fvalue"
  nan :: "'f"

subsection \<open>Strings\<close>

text \<open>
  The file is opened with encoding iso-8859-1, so every character of a line is one of the
  256 code points of \<open>char\<close>. \<open>str.isspace\<close> on these code points: tab, line feed, vertical
  tab, form feed, carriage return, the four separators 28-31, space, NEL (133) and the
  no-break space (160).
\<close>

definition py_isspace :: "char \<Rightarrow> bool" where
  "py_isspace c = ((of_char c :: nat) \<in> {9, 10, 11, 12, 13, 28, 29, 30, 31, 32, 133, 160})"

definition py_strip :: "string \<Rightarrow> string" where
  "py_strip s = rev (dropWhile py_isspace (rev (dropWhile py_isspace s)))"

text \<open>\<open>s.split(sep)\<close> for a separator of one character: empty fields are kept.\<close>

fun py_split :: "char \<Rightarrow> string \<Rightarrow> string list" where
  "py_split sep [] = [[]]"
| "py_split sep (c # cs) =
     (if c = sep then [] # py_split sep cs
      else (case py_split sep cs of
              [] \<Rightarrow> [[c]]
            | w # ws \<Rightarrow> (c # w) # ws))"

text \<open>\<open>sub in s\<close> on strings: \<open>sub\<close> occurs in \<open>s\<close> as a contiguous piece.\<close>

fun py_in :: "string \<Rightarrow> string \<Rightarrow> bool" where
  "py_in sub [] = (sub = [])"
| "py_in sub (c # cs) = (prefix sub (c # cs) \<or> py_in sub cs)"

subsection \<open>Lists and arrays\<close>

text \<open>
  An index of a Python list or of a numpy axis of length \<open>n\<close>: \<open>0 \<le> i < n\<close> is the position
  itself, \<open>-n \<le> i < 0\<close> counts from the end, anything else raises \<open>IndexError\<close>.
\<close>

definition np_index :: "nat \<Rightarrow> int \<Rightarrow> nat option" where
  "np_index n i =
     (if 0 \<le> i \<and> i < int n then Some (nat i)
      else if - int n \<le> i \<and> i < 0 then Some (nat (int n + i))
      else None)"

definition py_index :: "'a list \<Rightarrow> int \<Rightarrow> pyerr + 'a" where
  "py_index xs i =
     (case np_index (length xs) i of None \<Rightarrow> Inl IndexError | Some k \<Rightarrow> Inr (xs ! k))"

text \<open>\<open>range(n)\<close>: empty when \<open>n \<le> 0\<close>.\<close>

definition py_range :: "int \<Rightarrow> int list" where
  "py_range n = [0..n - 1]"

text \<open>
  A float array of one dimension is a list, one of three dimensions a list of rows, each a
  list of columns, each a list along the time axis. \<open>np.zeros(shape)\<close> followed by
  \<open>a[:] = np.nan\<close> gives the array filled with NaN; a negative dimension raises \<open>ValueError\<close>.
\<close>

type_synonym 'f array1 = "'f list"
type_synonym 'f array3 = "'f list list list"

definition np_full1 :: "int \<Rightarrow> 'f \<Rightarrow> pyerr + 'f array1" where
  "np_full1 n v = (if n < 0 then Inl ValueError else Inr (replicate (nat n) v))"

definition np_full3 :: "int \<Rightarrow> int \<Rightarrow> int \<Rightarrow> 'f \<Rightarrow> pyerr + 'f array3" where
  "np_full3 a b c v =
     (if a < 0 \<or> b < 0 \<or> c < 0 then Inl ValueError
      else Inr (replicate (nat a) (replicate (nat b) (replicate (nat c) v))))"

definition has_shape :: "'f array3 \<Rightarrow> nat \<Rightarrow> nat \<Rightarrow> nat \<Rightarrow> bool" where
  "has_shape g a b c =
     (length g = a \<and> (\<forall>row \<in> set g. length row = b \<and> (\<forall>col \<in> set row. length col = c)))"

text \<open>\<open>a[i] = v\<close> and \<open>a[i]\<close> on one dimension, \<open>a[r, c, t] = v\<close> and \<open>a[r, c, t]\<close> on three.\<close>

definition np_set1 :: "'f array1 \<Rightarrow> int \<Rightarrow> 'f \<Rightarrow> pyerr + 'f array1" where
  "np_set1 a i v =
     (case np_index (length a) i of None \<Rightarrow> Inl IndexError | Some k \<Rightarrow> Inr (a[k := v]))"

definition np_get1 :: "'f array1 \<Rightarrow> int \<Rightarrow> pyerr + 'f" where
  "np_get1 a i =
     (case np_index (length a) i of None \<Rightarrow> Inl IndexError | Some k \<Rightarrow> Inr (a ! k))"

definition np_set3 :: "'f array3 \<Rightarrow> int \<Rightarrow> int \<Rightarrow> int \<Rightarrow> 'f \<Rightarrow> pyerr + 'f array3" where
  "np_set3 g r c t v =
     (case np_index (length g) r of
        None \<Rightarrow> Inl IndexError
      | Some r' \<Rightarrow>
         (case np_index (length (g ! r')) c of
            None \<Rightarrow> Inl IndexError
          | Some c' \<Rightarrow>
             (case np_index (length (g ! r' ! c')) t of
                None \<Rightarrow> Inl IndexError
              | Some t' \<Rightarrow> Inr (g[r' := (g ! r')[c' := (g ! r' ! c')[t' := v]]]))))"

definition np_get3 :: "'f array3 \<Rightarrow> int \<Rightarrow> int \<Rightarrow> int \<Rightarrow> pyerr + 'f" where
  "np_get3 g r c t =
     (case np_index (length g) r of
        None \<Rightarrow> Inl IndexError
      | Some r' \<Rightarrow>
         (case np_index (length (g ! r')) c of
            None \<Rightarrow> Inl IndexError
          | Some c' \<Rightarrow>
             (case np_index (length (g ! r' ! c')) t of
                None \<Rightarrow> Inl IndexError
              | Some t' \<Rightarrow> Inr (g ! r' ! c' ! t'))))"

text \<open>A \<open>for\<close> loop whose body may raise: the first exception ends the loop.\<close>

fun for_each :: "('a \<Rightarrow> 's \<Rightarrow> pyerr + 's) \<Rightarrow> 'a list \<Rightarrow> 's \<Rightarrow> pyerr + 's" where
  "for_each body [] s = Inr s"
| "for_each body (x # xs) s =
     (case body x s of Inl e \<Rightarrow> Inl e | Inr s' \<Rightarrow> for_each body xs s')"

section \<open>The parser\<close>

text \<open>
  The local variables of \<open>Organize\<close> that the loop over the lines changes. \<open>time_i\<close> and
  \<open>read\<close> are unbound until the first header line: \<open>None\<close>. The dictionaries keep their
  keys in the order of first insertion, as \<open>AList.update\<close> does.
\<close>

record 'f pstate =
  data_dict :: "(string \<times> 'f array3) list"
  time_dict :: "(string \<times> 'f array1) list"
  time_i :: "int option"
  read :: "string option"

text \<open>
  \<open>int(x)\<close> on a float: the value of \<open>x\<close> with its fraction cut off (towards zero);
  \<open>ValueError\<close> for NaN and \<open>OverflowError\<close> for an infinity.
\<close>

definition py_int :: "'f float_ops \<Rightarrow> 'f \<Rightarrow> pyerr + int" where
  "py_int ops x =
     (case fval ops x of
        NotANumber \<Rightarrow> Inl ValueError
      | Infinite \<Rightarrow> Inl OverflowError
      | Finite q \<Rightarrow> Inr (if 0 \<le> q then \<lfloor>q\<rfloor> else \<lceil>q\<rceil>))"

text \<open>Line 27: \<open>n_time_points = int(total_run_time/sampling_rate)\<close>.\<close>

definition n_time_points :: "'f float_ops \<Rightarrow> 'f \<Rightarrow> 'f \<Rightarrow> pyerr + int" where
  "n_time_points ops total_run_time sampling_rate =
     (if fzero ops sampling_rate then Inl ZeroDivisionError
      else py_int ops (fdiv ops total_run_time sampling_rate))"

text \<open>Line 35: the condition of the header branch.\<close>

definition is_header :: "string \<Rightarrow> bool" where
  "is_header line =
     (take 4 line = ''Read'' \<or> take 3 line = ''GFP'' \<or> take 3 line = ''RFP''
      \<or> take 3 line = ''600'' \<or> take 5 line = ''Ratio''
      \<or> length line = 4 \<or> length line = 8)"

text \<open>Line 44: the condition of the data branch.\<close>

definition is_data :: "string \<Rightarrow> bool" where
  "is_data line = (line \<noteq> [CHR 0x0A] \<and> \<not> py_in ''Time'' line)"

text \<open>
  Lines 36-42, the header branch: \<open>read\<close> is the line without its last character, both
  arrays of the read are created and filled with NaN, \<open>time_i\<close> is -1.
\<close>

definition new_read ::
  "'f float_ops \<Rightarrow> int \<Rightarrow> int \<Rightarrow> int \<Rightarrow> string \<Rightarrow> 'f pstate \<Rightarrow> pyerr + 'f pstate" where
  "new_read ops n_rows n_columns ntp line s =
     (let rd = butlast line in
      case np_full3 n_rows n_columns (ntp + 1) (nan ops) of
        Inl e \<Rightarrow> Inl e
      | Inr g \<Rightarrow>
         (case np_full1 (ntp + 1) (nan ops) of
            Inl e \<Rightarrow> Inl e
          | Inr tv \<Rightarrow>
             Inr (s\<lparr>data_dict := AList.update rd g (data_dict s),
                    time_dict := AList.update rd tv (time_dict s),
                    time_i := Some (- 1),
                    read := Some rd\<rparr>)))"

text \<open>
  Lines 51-55: the timestamp \<open>element[0]\<close> is split at the colons; the seconds are read
  first, then the minutes, then the hours. Parts after the third are ignored.
\<close>

definition hours :: "'f float_ops \<Rightarrow> string \<Rightarrow> pyerr + 'f" where
  "hours ops tok =
     (let time_split = py_split CHR '':'' tok in
      case py_index time_split 2 of
        Inl e \<Rightarrow> Inl e
      | Inr ts \<Rightarrow>
         (case float_of_str ops ts of
            None \<Rightarrow> Inl ValueError
          | Some s \<Rightarrow>
             (case float_of_str ops (time_split ! 1) of
                None \<Rightarrow> Inl ValueError
              | Some m0 \<Rightarrow>
                 (let m = fadd ops m0 (fdiv ops s (float_of_int ops 60)) in
                  case float_of_str ops (time_split ! 0) of
                    None \<Rightarrow> Inl ValueError
                  | Some h0 \<Rightarrow> Inr (fadd ops h0 (fdiv ops m (float_of_int ops 60)))))))"

text \<open>Line 57: \<open>time_dict[read][time_i] = h\<close>.\<close>

definition set_time :: "'f pstate \<Rightarrow> 'f \<Rightarrow> pyerr + 'f pstate" where
  "set_time s h =
     (case read s of
        None \<Rightarrow> Inl UnboundLocalError
      | Some rd \<Rightarrow>
         (case map_of (time_dict s) rd of
            None \<Rightarrow> Inl KeyError
          | Some tv \<Rightarrow>
             (case time_i s of
                None \<Rightarrow> Inl UnboundLocalError
              | Some t \<Rightarrow>
                 (case np_set1 tv t h of
                    Inl e \<Rightarrow> Inl e
                  | Inr tv' \<Rightarrow> Inr (s\<lparr>time_dict := AList.update rd tv' (time_dict s)\<rparr>)))))"

text \<open>\<open>data_dict[read][row_i, column_i, time_i] = v\<close> (lines 65, 67 and 69).\<close>

definition set_cell :: "'f pstate \<Rightarrow> int \<Rightarrow> int \<Rightarrow> 'f \<Rightarrow> pyerr + 'f pstate" where
  "set_cell s row_i column_i v =
     (case read s of
        None \<Rightarrow> Inl UnboundLocalError
      | Some rd \<Rightarrow>
         (case map_of (data_dict s) rd of
            None \<Rightarrow> Inl KeyError
          | Some g \<Rightarrow>
             (case time_i s of
                None \<Rightarrow> Inl UnboundLocalError
              | Some t \<Rightarrow>
                 (case np_set3 g row_i column_i t v of
                    Inl e \<Rightarrow> Inl e
                  | Inr g' \<Rightarrow> Inr (s\<lparr>data_dict := AList.update rd g' (data_dict s)\<rparr>)))))"

text \<open>
  Lines 64-69, the body of the two loops for one cell. The test of line 64 is an \<open>if\<close> of
  its own: the \<open>if\<close>/\<open>else\<close> of lines 66-69 runs after it in every case.
\<close>

definition cell ::
  "'f float_ops \<Rightarrow> int \<Rightarrow> string list \<Rightarrow> int \<Rightarrow> int \<Rightarrow> 'f pstate \<Rightarrow> pyerr + 'f pstate" where
  "cell ops n_columns element row_i column_i s =
     (case (if length element = 1 then set_cell s row_i column_i (nan ops) else Inr s) of
        Inl e \<Rightarrow> Inl e
      | Inr s1 \<Rightarrow>
         (case py_index element (n_columns * row_i + 1 + 1 + column_i) of
            Inl e \<Rightarrow> Inl e
          | Inr tok \<Rightarrow>
             if tok = ''OVRFLW'' then set_cell s1 row_i column_i (nan ops)
             else (case float_of_str ops tok of
                     None \<Rightarrow> Inl ValueError
                   | Some v \<Rightarrow> set_cell s1 row_i column_i v)))"

text \<open>Lines 45-69, the data branch.\<close>

definition data_row ::
  "'f float_ops \<Rightarrow> int \<Rightarrow> int \<Rightarrow> string \<Rightarrow> 'f pstate \<Rightarrow> pyerr + 'f pstate" where
  "data_row ops n_rows n_columns line s =
     (let element = py_split CHR 0x09 (py_strip line) in
      case time_i s of
        None \<Rightarrow> Inl UnboundLocalError
      | Some t0 \<Rightarrow>
         (let s1 = s\<lparr>time_i := Some (t0 + 1)\<rparr> in
          case py_index element 0 of
            Inl e \<Rightarrow> Inl e
          | Inr tok \<Rightarrow>
             (case hours ops tok of
                Inl e \<Rightarrow> Inl e
              | Inr h \<Rightarrow>
                 (case set_time s1 h of
                    Inl e \<Rightarrow> Inl e
                  | Inr s2 \<Rightarrow>
                     for_each
                       (\<lambda>row_i. for_each (cell ops n_columns element row_i) (py_range n_columns))
                       (py_range n_rows) s2))))"

text \<open>Lines 35-69, the body of the loop over the lines; the debug output is left out.\<close>

definition organize_line ::
  "'f float_ops \<Rightarrow> int \<Rightarrow> int \<Rightarrow> int \<Rightarrow> string \<Rightarrow> 'f pstate \<Rightarrow> pyerr + 'f pstate" where
  "organize_line ops n_rows n_columns ntp line s =
     (if is_header line then new_read ops n_rows n_columns ntp line s
      else if is_data line then data_row ops n_rows n_columns line s
      else Inr s)"

definition init_state :: "'f pstate" where
  "init_state = \<lparr>data_dict = [], time_dict = [], time_i = None, read = None\<rparr>"

text \<open>
  \<open>Organize\<close>, on the lines that iterating over the opened file yields (each with its
  terminator, the last one possibly without).
\<close>

definition Organize ::
  "'f float_ops \<Rightarrow> string list \<Rightarrow> int \<Rightarrow> int \<Rightarrow> 'f \<Rightarrow> 'f
     \<Rightarrow> pyerr + ((string \<times> 'f array3) list \<times> (string \<times> 'f array1) list)" where
  "Organize ops lines n_rows n_columns total_run_time sampling_rate =
     (case n_time_points ops total_run_time sampling_rate of
        Inl e \<Rightarrow> Inl e
      | Inr ntp \<Rightarrow>
         (case for_each (organize_line ops n_rows n_columns ntp) lines init_state of
            Inl e \<Rightarrow> Inl e
          | Inr s \<Rightarrow> Inr (data_dict s, time_dict s)))"

section \<open>The header rule in the words of the specification\<close>

text \<open>
  Section 4.1 of the specification: a line is a header if its leading substring equals one
  of the prefixes "Read", "GFP", "RFP", "600", "Ratio", or its total length is exactly 4
  or 8 characters. Written with the prefix relation, to be compared with the slices that
  line 35 of the source tests.
\<close>

definition spec_header :: "string \<Rightarrow> bool" where
  "spec_header line =
     (prefix ''Read'' line \<or> prefix ''GFP'' line \<or> prefix ''RFP'' line
      \<or> prefix ''600'' line \<or> prefix ''Ratio'' line
      \<or> length line = 4 \<or> length line = 8)"

section \<open>An instance of the floats for running the parser\<close>

text \<open>
  Exact rational numbers with one more value for NaN, reading plain decimal literals
  (digits, at most one point). Python's floats round and read more literals; the theorems
  below hold for every \<open>float_ops\<close> and use this instance only to run the parser on
  concrete lines.
\<close>

definition digit_of :: "char \<Rightarrow> nat option" where
  "digit_of c =
     (let n = (of_char c :: nat) in if 48 \<le> n \<and> n \<le> 57 then Some (n - 48) else None)"

fun digits_val :: "string \<Rightarrow> nat \<Rightarrow> nat option" where
  "digits_val [] acc = Some acc"
| "digits_val (c # cs) acc =
     (case digit_of c of None \<Rightarrow> None | Some d \<Rightarrow> digits_val cs (10 * acc + d))"

definition dec_of_str :: "string \<Rightarrow> rat option option" where
  "dec_of_str s =
     (case py_split CHR ''.'' s of
        [a] \<Rightarrow>
          (if a = [] then None
           else map_option (\<lambda>n. Some (of_nat n)) (digits_val a 0))
      | [a, b] \<Rightarrow>
          (if a = [] \<and> b = [] then None
           else (case (digits_val a 0, digits_val b 0) of
                   (Some x, Some y) \<Rightarrow> Some (Some (of_nat x + of_nat y / 10 ^ length b))
                 | _ \<Rightarrow> None))
      | _ \<Rightarrow> None)"

definition lift2 :: "(rat \<Rightarrow> rat \<Rightarrow> rat) \<Rightarrow> rat option \<Rightarrow> rat option \<Rightarrow> rat option" where
  "lift2 f x y = (case (x, y) of (Some a, Some b) \<Rightarrow> Some (f a b) | _ \<Rightarrow> None)"

definition dec_ops :: "rat option float_ops" where
  "dec_ops =
     \<lparr>float_of_str = dec_of_str,
      float_of_int = (\<lambda>i. Some (of_int i)),
      fadd = lift2 (+),
      fdiv = lift2 (/),
      fzero = (\<lambda>x. x = Some 0),
      fval = (\<lambda>x. case x of None \<Rightarrow> NotANumber | Some q \<Rightarrow> Finite q),
      nan = None\<rparr>"

section \<open>What a data row leaves in a cell\<close>

text \<open>
  The cell \<open>(r, c)\<close> of the current read at the current time index holds the token at
  offset \<open>n_columns * r + 2 + c\<close> of \<open>element\<close>: NaN for the text "OVRFLW", the token read
  as a float otherwise.
\<close>

definition cell_ok :: "'f float_ops \<Rightarrow> int \<Rightarrow> string list \<Rightarrow> 'f pstate \<Rightarrow> int \<Rightarrow> int \<Rightarrow> bool" where
  "cell_ok ops n_columns element s r c =
     (\<exists>rd t g tok. read s = Some rd \<and> time_i s = Some t \<and> map_of (data_dict s) rd = Some g
        \<and> py_index element (n_columns * r + 2 + c) = Inr tok
        \<and> (tok = ''OVRFLW'' \<longrightarrow> np_get3 g r c t = Inr (nan ops))
        \<and> (tok \<noteq> ''OVRFLW'' \<longrightarrow>
             (\<exists>v. float_of_str ops tok = Some v \<and> np_get3 g r c t = Inr v)))"

section \<open>The shape of the arrays of a state\<close>

text \<open>
  Every grid of \<open>data_dict\<close> has \<open>n_rows\<close> rows of \<open>n_columns\<close> columns of
  \<open>n_time_points + 1\<close> entries, and every time vector has \<open>n_time_points + 1\<close> entries.
\<close>

definition shapes_ok :: "int \<Rightarrow> int \<Rightarrow> int \<Rightarrow> 'f pstate \<Rightarrow> bool" where
  "shapes_ok n_rows n_columns ntp s =
     ((\<forall>p \<in> set (data_dict s). has_shape (snd p) (nat n_rows) (nat n_columns) (nat (ntp + 1)))
      \<and> (\<forall>p \<in> set (time_dict s). length (snd p) = nat (ntp + 1)))"

text \<open>An array exists only when numpy accepted the three dimensions.\<close>

definition dims_ok :: "int \<Rightarrow> int \<Rightarrow> int \<Rightarrow> 'f pstate \<Rightarrow> bool" where
  "dims_ok n_rows n_columns ntp s =
     (data_dict s = [] \<and> time_dict s = [] \<or> 0 \<le> n_rows \<and> 0 \<le> n_columns \<and> 0 \<le> ntp + 1)"

section \<open>Basic facts\<close>

lemma take_eq_prefix: "length p = n \<Longrightarrow> (take n xs = p) = prefix p xs"
  by (metis append_eq_conv_conj prefix_def take_is_prefix)

lemma is_header_spec: "is_header line = spec_header line"
  by (simp add: is_header_def spec_header_def take_eq_prefix)

lemma py_in_sublist: "py_in sub s = sublist sub s"
  by (induction s) (simp_all add: sublist_Cons_right)

text \<open>A line that is the terminator alone is never a header: its length is 1.\<close>

lemma newline_not_header: "\<not> is_header ''\<newline>''"
  by (simp add: is_header_def)

lemma for_each_append:
  "for_each body (xs @ ys) s =
     (case for_each body xs s of Inl e \<Rightarrow> Inl e | Inr s' \<Rightarrow> for_each body ys s')"
  by (induction xs arbitrary: s) (simp_all split: sum.splits)

lemma for_each_preserves:
  assumes "\<And>x s s'. body x s = Inr s' \<Longrightarrow> P s \<Longrightarrow> P s'"
    and "for_each body xs s = Inr s'" and "P s"
  shows "P s'"
  using assms(2,3)
proof (induction xs arbitrary: s)
  case Nil
  then show ?case by simp
next
  case (Cons x xs)
  then show ?case by (auto split: sum.splits dest: assms(1))
qed

lemma for_each_skip:
  assumes "\<And>x. x \<in> set xs \<Longrightarrow> body x s = Inr s"
  shows "for_each body xs s = Inr s"
  using assms by (induction xs) simp_all

lemma new_read_ok:
  assumes "0 \<le> n_rows" "0 \<le> n_columns" "0 \<le> ntp + 1"
  shows "new_read ops n_rows n_columns ntp line s =
     Inr (s\<lparr>data_dict := AList.update (butlast line)
                  (replicate (nat n_rows) (replicate (nat n_columns)
                     (replicate (nat (ntp + 1)) (nan ops)))) (data_dict s),
            time_dict :=
              AList.update (butlast line) (replicate (nat (ntp + 1)) (nan ops)) (time_dict s),
            time_i := Some (- 1),
            read := Some (butlast line)\<rparr>)"
  using assms by (simp add: new_read_def np_full3_def np_full1_def Let_def)

text \<open>The loops over the cells change \<open>data_dict\<close> only.\<close>

lemma set_cell_frame:
  assumes "set_cell s r c v = Inr s'"
  shows "time_i s' = time_i s \<and> read s' = read s \<and> time_dict s' = time_dict s"
  using assms by (auto simp: set_cell_def split: option.splits sum.splits)

lemma cell_frame:
  assumes "cell ops n_columns element r c s = Inr s'"
  shows "time_i s' = time_i s \<and> read s' = read s \<and> time_dict s' = time_dict s"
  using assms
  by (auto simp: cell_def split: option.splits sum.splits if_splits dest!: set_cell_frame)

lemma cells_frame:
  assumes "for_each (\<lambda>row_i. for_each (cell ops n_columns element row_i) cs) rs s = Inr s'"
  shows "time_i s' = time_i s \<and> read s' = read s \<and> time_dict s' = time_dict s"
proof -
  let ?P = "\<lambda>u. time_i u = time_i s \<and> read u = read s \<and> time_dict u = time_dict s"
  have inner: "?P u'" if "for_each (cell ops n_columns element r) cs u = Inr u'" "?P u" for r u u'
    using that(1) that(2)
    by (rule for_each_preserves[where P = ?P, rotated]) (auto dest!: cell_frame)
  show ?thesis
    using assms
    by (rule for_each_preserves[where P = ?P, rotated]) (auto dest: inner)
qed

lemma data_row_time_i:
  assumes "data_row ops n_rows n_columns line s = Inr s'"
  shows "\<exists>t0. time_i s = Some t0 \<and> time_i s' = Some (t0 + 1) \<and> read s' = read s"
  using assms
  by (auto simp: data_row_def Let_def set_time_def split: option.splits sum.splits
      dest!: cells_frame)

lemma organize_line_unbound:
  assumes "\<not> is_header line" and "is_data line" and "time_i s = None"
  shows "organize_line ops n_rows n_columns ntp line s = Inl UnboundLocalError"
  using assms by (simp add: organize_line_def data_row_def)

section \<open>Line classification\<close>

text \<open>
  C2. A line is treated as a new-channel header exactly when its leading substring is one
  of "Read", "GFP", "RFP", "600", "Ratio" or its length, terminator included, is 4 or 8:
  the condition of line 35 is the rule of the specification, a line that satisfies it runs
  the header branch, and a line that does not runs the data branch or is skipped.
\<close>

theorem header_rule:
  "is_header line = spec_header line
   \<and> (spec_header line \<longrightarrow>
        organize_line ops n_rows n_columns ntp line s =
          new_read ops n_rows n_columns ntp line s)
   \<and> (\<not> spec_header line \<longrightarrow>
        organize_line ops n_rows n_columns ntp line s =
          (if is_data line then data_row ops n_rows n_columns line s else Inr s))"
  by (simp add: organize_line_def is_header_spec)

theorem header_rule_witness:
  "spec_header ''Read 2:485,528\<newline>''
   \<and> organize_line dec_ops 1 1 0 ''Read 2:485,528\<newline>'' init_state =
       new_read dec_ops 1 1 0 ''Read 2:485,528\<newline>'' init_state
   \<and> \<not> spec_header ''\<newline>''
   \<and> organize_line dec_ops 1 1 0 ''\<newline>'' init_state = Inr init_state"
  using header_rule [of "''Read 2:485,528\<newline>''" dec_ops 1 1 0 init_state]
    header_rule [of "''\<newline>''" dec_ops 1 1 0 init_state]
  by (simp add: spec_header_def is_data_def)

text \<open>
  C7. A line that is not a header and that is the terminator alone, or contains "Time",
  leaves the whole state as it is: the time index, the current read and every stored
  array.
\<close>

theorem skip_line_no_change:
  assumes "\<not> is_header line" and "line = ''\<newline>'' \<or> sublist ''Time'' line"
  shows "organize_line ops n_rows n_columns ntp line s = Inr s"
  using assms by (auto simp: organize_line_def is_data_def py_in_sublist)

theorem skip_line_no_change_witness:
  "\<not> is_header (''Time'' @ CHR 0x09 # ''T 600'' @ CHR 0x09 # ''A1\<newline>'')
   \<and> sublist ''Time'' (''Time'' @ CHR 0x09 # ''T 600'' @ CHR 0x09 # ''A1\<newline>'')
   \<and> organize_line dec_ops 1 1 0 (''Time'' @ CHR 0x09 # ''T 600'' @ CHR 0x09 # ''A1\<newline>'')
        \<lparr>data_dict = [(''600'', [[[Some 5]]])], time_dict = [(''600'', [Some 2])],
         time_i = Some 0, read = Some ''600''\<rparr>
       = Inr \<lparr>data_dict = [(''600'', [[[Some 5]]])], time_dict = [(''600'', [Some 2])],
              time_i = Some 0, read = Some ''600''\<rparr>"
  using skip_line_no_change [of "''Time'' @ CHR 0x09 # ''T 600'' @ CHR 0x09 # ''A1\<newline>''"
      dec_ops 1 1 0
      "\<lparr>data_dict = [(''600'', [[[Some 5]]])], time_dict = [(''600'', [Some 2])],
        time_i = Some 0, read = Some ''600''\<rparr>"]
  by (simp add: is_header_def py_in_sublist [symmetric])

text \<open>
  C10. The header test comes first: a line that contains "Time", or is the terminator
  alone, and that satisfies the header rule runs the header branch, which (for dimensions
  that numpy accepts) opens the read named by the line without its last character, and
  the line is not skipped.
\<close>

theorem header_precedence:
  assumes "sublist ''Time'' line \<or> line = ''\<newline>''" and "spec_header line"
  shows "organize_line ops n_rows n_columns ntp line s =
           new_read ops n_rows n_columns ntp line s
         \<and> (0 \<le> n_rows \<and> 0 \<le> n_columns \<and> 0 \<le> ntp + 1 \<longrightarrow>
              (\<exists>s'. organize_line ops n_rows n_columns ntp line s = Inr s'
                 \<and> time_i s' = Some (- 1)
                 \<and> read s' = Some (butlast line)
                 \<and> map_of (data_dict s') (butlast line) =
                     Some (replicate (nat n_rows) (replicate (nat n_columns)
                             (replicate (nat (ntp + 1)) (nan ops))))
                 \<and> map_of (time_dict s') (butlast line) =
                     Some (replicate (nat (ntp + 1)) (nan ops))))"
  using assms(2)
  by (auto simp: organize_line_def is_header_spec new_read_ok update_conv')

theorem header_precedence_witness:
  "sublist ''Time'' (''Time'' @ CHR 0x09 # ''A1\<newline>'')
   \<and> spec_header (''Time'' @ CHR 0x09 # ''A1\<newline>'')
   \<and> (\<exists>s'. organize_line dec_ops 1 1 0 (''Time'' @ CHR 0x09 # ''A1\<newline>'') init_state = Inr s'
         \<and> time_i s' = Some (- 1)
         \<and> read s' = Some (''Time'' @ CHR 0x09 # ''A1'')
         \<and> map_of (data_dict s') (''Time'' @ CHR 0x09 # ''A1'') = Some [[[None]]]
         \<and> map_of (time_dict s') (''Time'' @ CHR 0x09 # ''A1'') = Some [None])"
proof -
  let ?L = "''Time'' @ CHR 0x09 # ''A1\<newline>''"
  have a: "sublist ''Time'' ?L"
    by (simp add: py_in_sublist [symmetric])
  have b: "spec_header ?L"
    by (simp add: spec_header_def)
  have "(0::int) \<le> 1 \<and> (0::int) \<le> 1 \<and> (0::int) \<le> 0 + 1"
    by simp
  with header_precedence [OF disjI1 [OF a] b, of dec_ops 1 1 0 init_state]
  obtain s' where "organize_line dec_ops 1 1 0 ?L init_state = Inr s'"
    and "time_i s' = Some (- 1)" and "read s' = Some (butlast ?L)"
    and "map_of (data_dict s') (butlast ?L) =
           Some (replicate (nat 1) (replicate (nat 1) (replicate (nat (0 + 1)) (nan dec_ops))))"
    and "map_of (time_dict s') (butlast ?L) = Some (replicate (nat (0 + 1)) (nan dec_ops))"
    by blast
  then show ?thesis
    using a b by (simp add: dec_ops_def)
qed

section \<open>The header branch\<close>

text \<open>
  C5. Every header line, whatever the state holds (also a read of the same name filled
  with data), succeeds for dimensions that numpy accepts and leaves under the name of the
  read a grid and a time vector that are NaN everywhere, with the time index at -1; a
  data row that follows and succeeds has the time index 0.
\<close>

theorem header_resets:
  assumes "is_header line" and "0 \<le> n_rows" and "0 \<le> n_columns" and "0 \<le> ntp + 1"
  shows "\<exists>s'. organize_line ops n_rows n_columns ntp line s = Inr s'
           \<and> time_i s' = Some (- 1)
           \<and> read s' = Some (butlast line)
           \<and> map_of (data_dict s') (butlast line) =
               Some (replicate (nat n_rows) (replicate (nat n_columns)
                       (replicate (nat (ntp + 1)) (nan ops))))
           \<and> map_of (time_dict s') (butlast line) = Some (replicate (nat (ntp + 1)) (nan ops))
           \<and> (\<forall>row s''. \<not> is_header row \<and> is_data row
                 \<and> organize_line ops n_rows n_columns ntp row s' = Inr s''
                 \<longrightarrow> time_i s'' = Some 0)"
  using assms
  by (auto simp: organize_line_def new_read_ok update_conv' dest!: data_row_time_i)

theorem header_resets_witness:
  "is_header ''600\<newline>''
   \<and> (\<exists>s'. organize_line dec_ops 1 1 0 ''600\<newline>''
             \<lparr>data_dict = [(''600'', [[[Some 5]]])], time_dict = [(''600'', [Some 2])],
              time_i = Some 0, read = Some ''600''\<rparr> = Inr s'
         \<and> time_i s' = Some (- 1)
         \<and> read s' = Some ''600''
         \<and> map_of (data_dict s') ''600'' = Some [[[None]]]
         \<and> map_of (time_dict s') ''600'' = Some [None])"
proof -
  let ?s = "\<lparr>data_dict = [(''600'', [[[Some (5::rat)]]])], time_dict = [(''600'', [Some 2])],
             time_i = Some 0, read = Some ''600''\<rparr>"
  have a: "is_header ''600\<newline>''"
    by (simp add: is_header_def)
  from header_resets [OF a, of 1 1 0 dec_ops ?s]
  obtain s' where "organize_line dec_ops 1 1 0 ''600\<newline>'' ?s = Inr s'"
    and "time_i s' = Some (- 1)" and "read s' = Some (butlast ''600\<newline>'')"
    and "map_of (data_dict s') (butlast ''600\<newline>'') =
           Some (replicate (nat 1) (replicate (nat 1) (replicate (nat (0 + 1)) (nan dec_ops))))"
    and "map_of (time_dict s') (butlast ''600\<newline>'') =
           Some (replicate (nat (0 + 1)) (nan dec_ops))"
    by auto
  then show ?thesis
    using a by (simp add: dec_ops_def)
qed

section \<open>Rows before any header\<close>

text \<open>
  C8. When the first line that is not skipped is a data row, the call raises: skipped
  lines leave \<open>time_i\<close> unbound, and line 49 reads it. (When the division of line 27
  raises, the call has failed before the first line.)
\<close>

theorem data_before_header_fails:
  assumes "\<forall>l \<in> set pre. \<not> is_header l \<and> \<not> is_data l"
    and "\<not> is_header line" and "is_data line"
  shows "Organize ops (pre @ line # rest) n_rows n_columns total_run_time sampling_rate =
           (case n_time_points ops total_run_time sampling_rate of
              Inl e \<Rightarrow> Inl e
            | Inr ntp \<Rightarrow> Inl UnboundLocalError)"
proof (cases "n_time_points ops total_run_time sampling_rate")
  case (Inl e)
  then show ?thesis by (simp add: Organize_def)
next
  case (Inr ntp)
  have "for_each (organize_line ops n_rows n_columns ntp) pre init_state = Inr init_state"
    using assms(1) by (intro for_each_skip) (simp add: organize_line_def)
  moreover have "organize_line ops n_rows n_columns ntp line init_state = Inl UnboundLocalError"
    using assms(2,3) by (intro organize_line_unbound) (simp_all add: init_state_def)
  ultimately show ?thesis
    using Inr by (simp add: Organize_def for_each_append)
qed

theorem data_before_header_fails_witness:
  "\<not> is_header ''\<newline>'' \<and> \<not> is_data ''\<newline>''
   \<and> \<not> is_header (''0:00:00'' @ CHR 0x09 # ''A1'' @ CHR 0x09 # ''7\<newline>'')
   \<and> is_data (''0:00:00'' @ CHR 0x09 # ''A1'' @ CHR 0x09 # ''7\<newline>'')
   \<and> Organize dec_ops
        ([''\<newline>''] @ (''0:00:00'' @ CHR 0x09 # ''A1'' @ CHR 0x09 # ''7\<newline>'') # [''600\<newline>''])
        1 1 (Some 1) (Some 1) = Inl UnboundLocalError"
proof -
  have n: "n_time_points dec_ops (Some 1) (Some 1) = Inr 1"
    by (simp add: n_time_points_def py_int_def dec_ops_def lift2_def)
  show ?thesis
    using data_before_header_fails [of "[''\<newline>'']"
        "''0:00:00'' @ CHR 0x09 # ''A1'' @ CHR 0x09 # ''7\<newline>''" dec_ops "[''600\<newline>'']"
        1 1 "Some 1" "Some 1"]
    by (simp add: is_header_def is_data_def n)
qed

section \<open>Arrays\<close>

lemma np_index_nonneg: "0 \<le> i \<Longrightarrow> np_index n i = (if i < int n then Some (nat i) else None)"
  by (simp add: np_index_def)

lemma np_index_less: "np_index n i = Some k \<Longrightarrow> k < n"
  by (auto simp: np_index_def split: if_splits)

lemma np_get3_set3_same:
  assumes "np_set3 g r c t v = Inr g'"
  shows "np_get3 g' r c t = Inr v"
proof -
  from assms obtain r' c' t' where r': "np_index (length g) r = Some r'"
    and c': "np_index (length (g ! r')) c = Some c'"
    and t': "np_index (length (g ! r' ! c')) t = Some t'"
    and g': "g' = g[r' := (g ! r')[c' := (g ! r' ! c')[t' := v]]]"
    by (auto simp: np_set3_def split: option.splits)
  have lt: "r' < length g" "c' < length (g ! r')" "t' < length (g ! r' ! c')"
    using r' c' t' by (auto dest: np_index_less)
  have "length g' = length g" "g' ! r' = (g ! r')[c' := (g ! r' ! c')[t' := v]]"
    using lt by (simp_all add: g')
  moreover have "(g ! r')[c' := (g ! r' ! c')[t' := v]] ! c' = (g ! r' ! c')[t' := v]"
    using lt by simp
  ultimately show ?thesis
    using r' c' t' lt by (simp add: np_get3_def)
qed

lemma np_get3_set3_other:
  assumes "np_set3 g r c t v = Inr g'" and "0 \<le> r" "0 \<le> c" "0 \<le> r0" "0 \<le> c0"
    and "r0 \<noteq> r \<or> c0 \<noteq> c"
  shows "np_get3 g' r0 c0 t0 = np_get3 g r0 c0 t0"
proof -
  from assms(1-3) obtain t' where r: "r < int (length g)" and c: "c < int (length (g ! nat r))"
    and g': "g' = g[nat r := (g ! nat r)[nat c := (g ! nat r ! nat c)[t' := v]]]"
    by (auto simp: np_set3_def np_index_nonneg split: option.splits if_splits)
  show ?thesis
  proof (cases "r0 = r")
    case False
    with assms(2,4) have "nat r \<noteq> nat r0" by simp
    then show ?thesis
      using assms(4,5) by (simp add: np_get3_def np_index_nonneg g' split: option.splits)
  next
    case True
    with assms(6) have "c0 \<noteq> c" by simp
    with assms(3,5) have "nat c \<noteq> nat c0" by simp
    then show ?thesis
      using assms(2-5) r True by (simp add: np_get3_def np_index_nonneg g' split: option.splits)
  qed
qed

section \<open>The timestamp\<close>

lemma py_split_nonempty: "py_split sep s \<noteq> []"
  by (induction s) (auto split: list.splits)

lemma hours_ok:
  assumes "py_split CHR '':'' tok = [H, M, S]"
    and "float_of_str ops H = Some h" and "float_of_str ops M = Some m"
    and "float_of_str ops S = Some sec"
  shows "hours ops tok =
     Inr (fadd ops h (fdiv ops (fadd ops m (fdiv ops sec (float_of_int ops 60)))
                        (float_of_int ops 60)))"
  using assms by (simp add: hours_def py_index_def np_index_def Let_def)

lemma np_get1_set1: "np_set1 a i v = Inr a' \<Longrightarrow> np_get1 a' i = Inr v"
  by (auto simp: np_set1_def np_get1_def np_index_def split: option.splits if_splits)

text \<open>
  C4. When a data row is parsed and its first token has the form H:M:S with three
  numeric parts, the entry of the read's time vector at the row's time index is
  \<open>H + (M + S/60)/60\<close>, computed with the float operations in this order.
\<close>

theorem timestamp_hours:
  assumes "data_row ops n_rows n_columns line s = Inr s'"
    and "py_split CHR 0x09 (py_strip line) = tok # toks"
    and "py_split CHR '':'' tok = [H, M, S]"
    and "float_of_str ops H = Some h" and "float_of_str ops M = Some m"
    and "float_of_str ops S = Some sec"
  shows "\<exists>rd t tv. read s' = Some rd \<and> time_i s' = Some t
           \<and> map_of (time_dict s') rd = Some tv
           \<and> np_get1 tv t =
               Inr (fadd ops h (fdiv ops (fadd ops m (fdiv ops sec (float_of_int ops 60)))
                                  (float_of_int ops 60)))"
proof -
  note hh = hours_ok [OF assms(3-6)]
  from assms(1,2) hh obtain t0 s2 where t0: "time_i s = Some t0"
    and s2: "set_time (s\<lparr>time_i := Some (t0 + 1)\<rparr>)
               (fadd ops h (fdiv ops (fadd ops m (fdiv ops sec (float_of_int ops 60)))
                                  (float_of_int ops 60))) = Inr s2"
    and loops: "for_each (\<lambda>row_i. for_each (cell ops n_columns (tok # toks) row_i) (py_range n_columns))
                  (py_range n_rows) s2 = Inr s'"
    by (auto simp: data_row_def Let_def py_index_def np_index_def split: option.splits sum.splits)
  from s2 obtain rd tv tv' where rd: "read s = Some rd"
    and tv': "np_set1 tv (t0 + 1) (fadd ops h (fdiv ops (fadd ops m (fdiv ops sec (float_of_int ops 60)))
                                  (float_of_int ops 60))) = Inr tv'"
    and s2eq: "s2 = s\<lparr>time_i := Some (t0 + 1), time_dict := AList.update rd tv' (time_dict s)\<rparr>"
    by (auto simp: set_time_def split: option.splits sum.splits)
  from cells_frame [OF loops] s2eq rd
  have "read s' = Some rd" "time_i s' = Some (t0 + 1)" "map_of (time_dict s') rd = Some tv'"
    by (simp_all add: update_conv')
  with np_get1_set1 [OF tv'] show ?thesis by blast
qed

theorem timestamp_hours_witness:
  "data_row dec_ops 1 1 (''01:30:15'' @ CHR 0x09 # ''A1'' @ CHR 0x09 # ''7\<newline>'')
     \<lparr>data_dict = [(''600'', [[[None]]])], time_dict = [(''600'', [None])],
      time_i = Some (- 1), read = Some ''600''\<rparr>
   = Inr \<lparr>data_dict = [(''600'', [[[Some 7]]])], time_dict = [(''600'', [Some (361 / 240)])],
          time_i = Some 0, read = Some ''600''\<rparr>
   \<and> np_get1 [Some (361 / 240 :: rat)] 0 = Inr (Some (1 + (30 + 15 / 60) / 60))"
proof -
  let ?L = "''01:30:15'' @ CHR 0x09 # ''A1'' @ CHR 0x09 # ''7\<newline>''"
  let ?s = "\<lparr>data_dict = [(''600'', [[[None :: rat option]]])], time_dict = [(''600'', [None])],
             time_i = Some (- 1), read = Some ''600''\<rparr>"
  let ?s' = "\<lparr>data_dict = [(''600'', [[[Some (7 :: rat)]]])],
              time_dict = [(''600'', [Some (361 / 240)])],
              time_i = Some 0, read = Some ''600''\<rparr>"
  have row: "data_row dec_ops 1 1 ?L ?s = Inr ?s'"
    by (simp add: data_row_def py_strip_def py_isspace_def py_index_def np_index_def hours_def
        set_time_def np_set1_def py_range_def upto.simps cell_def set_cell_def np_set3_def
        dec_ops_def dec_of_str_def digit_of_def lift2_def Let_def)
  have toks: "py_split CHR 0x09 (py_strip ?L) = ''01:30:15'' # [''A1'', ''7'']"
    by (simp add: py_strip_def py_isspace_def)
  have parts: "py_split CHR '':'' ''01:30:15'' = [''01'', ''30'', ''15'']"
    by simp
  have h: "float_of_str dec_ops ''01'' = Some (Some 1)"
    and m: "float_of_str dec_ops ''30'' = Some (Some 30)"
    and sec: "float_of_str dec_ops ''15'' = Some (Some 15)"
    by (simp_all add: dec_ops_def dec_of_str_def digit_of_def)
  from timestamp_hours [OF row toks parts h m sec]
  have "np_get1 [Some (361 / 240 :: rat)] 0 = Inr (Some (1 + (30 + 15 / 60) / 60))"
    by (simp add: dec_ops_def lift2_def)
  with row show ?thesis by simp
qed

section \<open>The cells of a data row\<close>

lemma set_cell_effect:
  assumes "set_cell s r c v = Inr s'"
  shows "\<exists>rd t g g'. read s = Some rd \<and> time_i s = Some t \<and> map_of (data_dict s) rd = Some g
           \<and> np_set3 g r c t v = Inr g'
           \<and> read s' = Some rd \<and> time_i s' = Some t \<and> map_of (data_dict s') rd = Some g'"
  using assms by (auto simp: set_cell_def update_conv' split: option.splits sum.splits)

lemma set_cell_keeps:
  assumes "set_cell s r c v = Inr s'" and "cell_ok ops n_columns element s r0 c0"
    and "0 \<le> r" "0 \<le> c" "0 \<le> r0" "0 \<le> c0" and "r0 \<noteq> r \<or> c0 \<noteq> c"
  shows "cell_ok ops n_columns element s' r0 c0"
proof -
  from set_cell_effect [OF assms(1)] obtain rd t g g' where
    s: "read s = Some rd" "time_i s = Some t" "map_of (data_dict s) rd = Some g"
    and g': "np_set3 g r c t v = Inr g'"
    and s': "read s' = Some rd" "time_i s' = Some t" "map_of (data_dict s') rd = Some g'"
    by blast
  have "np_get3 g' r0 c0 t = np_get3 g r0 c0 t"
    using g' assms(3-7) by (rule np_get3_set3_other)
  with assms(2) s s' show ?thesis
    by (auto simp: cell_ok_def)
qed

lemma cell_unfold:
  assumes "cell ops n_columns element r c s = Inr s'"
  shows "\<exists>s1 tok v. (s1 = s \<or> set_cell s r c (nan ops) = Inr s1)
           \<and> py_index element (n_columns * r + 2 + c) = Inr tok
           \<and> (if tok = ''OVRFLW'' then v = nan ops else float_of_str ops tok = Some v)
           \<and> set_cell s1 r c v = Inr s'"
proof -
  let ?first = "if length element = 1 then set_cell s r c (nan ops) else Inr s"
  let ?i = "n_columns * r + 1 + 1 + c"
  from assms obtain s1 where s1: "?first = Inr s1"
    by (cases ?first) (simp_all add: cell_def)
  from assms s1 obtain tok where tok: "py_index element ?i = Inr tok"
    by (cases "py_index element ?i") (simp_all add: cell_def)
  have i: "?i = n_columns * r + 2 + c"
    by simp
  from s1 have a: "s1 = s \<or> set_cell s r c (nan ops) = Inr s1"
    by (simp split: if_splits)
  show ?thesis
  proof (cases "tok = ''OVRFLW''")
    case True
    with assms s1 tok have "set_cell s1 r c (nan ops) = Inr s'"
      by (simp add: cell_def)
    with a tok True show ?thesis
      unfolding i by (intro exI [of _ s1] exI [of _ tok] exI [of _ "nan ops"]) simp
  next
    case False
    with assms s1 tok obtain v where "float_of_str ops tok = Some v" "set_cell s1 r c v = Inr s'"
      by (cases "float_of_str ops tok") (simp_all add: cell_def)
    with a tok False show ?thesis
      unfolding i by (intro exI [of _ s1] exI [of _ tok] exI [of _ v]) simp
  qed
qed

lemma cell_keeps:
  assumes "cell ops n_columns element r c s = Inr s'" and "cell_ok ops n_columns element s r0 c0"
    and "0 \<le> r" "0 \<le> c" "0 \<le> r0" "0 \<le> c0" and "r0 \<noteq> r \<or> c0 \<noteq> c"
  shows "cell_ok ops n_columns element s' r0 c0"
proof -
  from cell_unfold [OF assms(1)] obtain s1 v where
    s1: "s1 = s \<or> set_cell s r c (nan ops) = Inr s1" and s': "set_cell s1 r c v = Inr s'"
    by blast
  from s1 have "cell_ok ops n_columns element s1 r0 c0"
  proof
    assume "s1 = s"
    with assms(2) show ?thesis by simp
  next
    assume "set_cell s r c (nan ops) = Inr s1"
    then show ?thesis using assms(2-7) by (rule set_cell_keeps)
  qed
  with s' show ?thesis
    using assms(3-7) by (rule set_cell_keeps)
qed

lemma cell_establishes:
  assumes "cell ops n_columns element r c s = Inr s'"
  shows "cell_ok ops n_columns element s' r c"
proof -
  from cell_unfold [OF assms] obtain s1 tok v where
    tok: "py_index element (n_columns * r + 2 + c) = Inr tok"
    and v: "if tok = ''OVRFLW'' then v = nan ops else float_of_str ops tok = Some v"
    and s': "set_cell s1 r c v = Inr s'"
    by blast
  from set_cell_effect [OF s'] obtain rd t g g' where
    g': "np_set3 g r c t v = Inr g'"
    and st: "read s' = Some rd" "time_i s' = Some t" "map_of (data_dict s') rd = Some g'"
    by blast
  have "np_get3 g' r c t = Inr v"
    using g' by (rule np_get3_set3_same)
  with tok v st show ?thesis
    unfolding cell_ok_def
    by (intro exI [of _ rd] exI [of _ t] exI [of _ g'] exI [of _ tok]) (simp split: if_splits)
qed

lemma for_each_establish:
  assumes est: "\<And>x s s'. body x s = Inr s' \<Longrightarrow> D x \<Longrightarrow> Q x s'"
    and keep: "\<And>x y s s'. body x s = Inr s' \<Longrightarrow> Q y s \<Longrightarrow> x \<noteq> y \<Longrightarrow> D x \<Longrightarrow> D y \<Longrightarrow> Q y s'"
    and "distinct xs" and "\<forall>x \<in> set xs. D x"
    and "for_each body xs s = Inr s'"
    and "\<forall>y \<in> A. D y \<and> Q y s" and "A \<inter> set xs = {}"
  shows "\<forall>y \<in> A \<union> set xs. Q y s'"
  using assms(3-)
proof (induction xs arbitrary: s A)
  case Nil
  then show ?case by simp
next
  case (Cons x xs)
  from Cons.prems(3) obtain s1 where s1: "body x s = Inr s1"
    and rest: "for_each body xs s1 = Inr s'"
    by (auto split: sum.splits)
  have Dx: "D x" using Cons.prems(2) by simp
  have "\<forall>y \<in> insert x A. D y \<and> Q y s1"
  proof
    fix y assume y: "y \<in> insert x A"
    show "D y \<and> Q y s1"
    proof (cases "y = x")
      case True
      then show ?thesis using est [OF s1 Dx] Dx by simp
    next
      case False
      with y have yA: "y \<in> A" by simp
      with Cons.prems(4) have "D y" "Q y s" by auto
      with keep [OF s1 _ _ Dx] False show ?thesis by auto
    qed
  qed
  moreover have "insert x A \<inter> set xs = {}"
    using Cons.prems(1,5) by auto
  moreover have "distinct xs" "\<forall>x \<in> set xs. D x"
    using Cons.prems(1,2) by simp_all
  ultimately have "\<forall>y \<in> insert x A \<union> set xs. Q y s'"
    using rest by (intro Cons.IH)
  then show ?case by simp
qed

lemma py_range_props: "distinct (py_range n)" "set (py_range n) = {0..n - 1}"
  by (simp_all add: py_range_def)

lemma row_keeps:
  assumes "for_each (cell ops n_columns element r) cs s = Inr s'"
    and "cell_ok ops n_columns element s r0 c0"
    and "0 \<le> r" "0 \<le> r0" "0 \<le> c0" "r0 \<noteq> r" "\<forall>c \<in> set cs. 0 \<le> c"
  shows "cell_ok ops n_columns element s' r0 c0"
  using assms(1,2,7)
proof (induction cs arbitrary: s)
  case Nil
  then show ?case by simp
next
  case (Cons c cs)
  from Cons.prems(1) obtain s1 where s1: "cell ops n_columns element r c s = Inr s1"
    and rest: "for_each (cell ops n_columns element r) cs s1 = Inr s'"
    by (auto split: sum.splits)
  have "0 \<le> c" using Cons.prems(3) by simp
  with s1 Cons.prems(2) assms(3-6) have "cell_ok ops n_columns element s1 r0 c0"
    by (intro cell_keeps [OF s1]) simp_all
  with rest Cons.prems(3) show ?case
    by (intro Cons.IH) simp_all
qed

lemma row_establishes:
  assumes "for_each (cell ops n_columns element r) cs s = Inr s'"
    and "0 \<le> r" "distinct cs" "\<forall>c \<in> set cs. 0 \<le> c"
  shows "\<forall>c \<in> set cs. cell_ok ops n_columns element s' r c"
proof -
  have "\<forall>c \<in> {} \<union> set cs. cell_ok ops n_columns element s' r c"
  proof (rule for_each_establish [where body = "cell ops n_columns element r"
        and D = "\<lambda>c. 0 \<le> c" and s = s])
    show "cell_ok ops n_columns element u' r x" if "cell ops n_columns element r x u = Inr u'"
      for x u u' using that by (rule cell_establishes)
    show "cell_ok ops n_columns element u' r y"
      if "cell ops n_columns element r x u = Inr u'" "cell_ok ops n_columns element u r y"
        "x \<noteq> y" "0 \<le> x" "0 \<le> y" for x y u u'
      using that assms(2) by (intro cell_keeps [OF that(1)]) auto
  qed (use assms in simp_all)
  then show ?thesis by simp
qed

lemma rows_establish:
  assumes "for_each (\<lambda>row_i. for_each (cell ops n_columns element row_i) cs) rs s = Inr s'"
    and "distinct rs" "\<forall>r \<in> set rs. 0 \<le> r" "distinct cs" "\<forall>c \<in> set cs. 0 \<le> c"
  shows "\<forall>r \<in> set rs. \<forall>c \<in> set cs. cell_ok ops n_columns element s' r c"
proof -
  let ?body = "\<lambda>row_i. for_each (cell ops n_columns element row_i) cs"
  have "\<forall>r \<in> {} \<union> set rs. \<forall>c \<in> set cs. cell_ok ops n_columns element s' r c"
  proof (rule for_each_establish [where body = ?body and D = "\<lambda>r. 0 \<le> r" and s = s])
    show "\<forall>c \<in> set cs. cell_ok ops n_columns element u' x c"
      if "?body x u = Inr u'" "0 \<le> x" for x u u'
      using that assms(4,5) by (intro row_establishes)
    show "\<forall>c \<in> set cs. cell_ok ops n_columns element u' y c"
      if "?body x u = Inr u'" "\<forall>c \<in> set cs. cell_ok ops n_columns element u y c"
        "x \<noteq> y" "0 \<le> x" "0 \<le> y" for x y u u'
    proof
      fix c assume c: "c \<in> set cs"
      with that(2) have "cell_ok ops n_columns element u y c" by simp
      moreover have "0 \<le> c" using c assms(5) by simp
      ultimately show "cell_ok ops n_columns element u' y c"
        using that(1,3,4,5) assms(5) by (intro row_keeps [OF that(1)]) auto
    qed
  qed (use assms in simp_all)
  then show ?thesis by simp
qed

lemma data_row_cell_ok:
  assumes "data_row ops n_rows n_columns line s = Inr s'"
    and "0 \<le> r" "r < n_rows" "0 \<le> c" "c < n_columns"
  shows "cell_ok ops n_columns (py_split CHR 0x09 (py_strip line)) s' r c"
proof -
  let ?element = "py_split CHR 0x09 (py_strip line)"
  from assms(1) obtain s2 where
    "for_each (\<lambda>row_i. for_each (cell ops n_columns ?element row_i) (py_range n_columns))
       (py_range n_rows) s2 = Inr s'"
    by (auto simp: data_row_def Let_def split: option.splits sum.splits)
  then have "\<forall>r \<in> set (py_range n_rows). \<forall>c \<in> set (py_range n_columns).
               cell_ok ops n_columns ?element s' r c"
    by (rule rows_establish) (simp_all add: py_range_props)
  with assms(2-5) show ?thesis
    by (simp add: py_range_props)
qed

text \<open>
  C1. After a data row that is parsed with a read open, every cell \<open>(r, c)\<close> with
  \<open>0 \<le> r < n_rows\<close> and \<open>0 \<le> c < n_columns\<close> of the read's grid holds, at the row's time
  index, the token at offset \<open>n_columns * r + 2 + c\<close> of the row split at the tabs (the row
  is stripped of surrounding whitespace first, line 45): NaN when the token is "OVRFLW",
  the token read as a float otherwise.
\<close>

theorem cell_values:
  assumes "data_row ops n_rows n_columns line s = Inr s'"
    and "0 \<le> r" "r < n_rows" "0 \<le> c" "c < n_columns"
  shows "\<exists>rd t g tok. read s' = Some rd \<and> time_i s' = Some t
           \<and> map_of (data_dict s') rd = Some g
           \<and> py_index (py_split CHR 0x09 (py_strip line)) (n_columns * r + 2 + c) = Inr tok
           \<and> (tok = ''OVRFLW'' \<longrightarrow> np_get3 g r c t = Inr (nan ops))
           \<and> (tok \<noteq> ''OVRFLW'' \<longrightarrow>
                (\<exists>v. float_of_str ops tok = Some v \<and> np_get3 g r c t = Inr v))"
  using data_row_cell_ok [OF assms] unfolding cell_ok_def .

theorem cell_values_witness:
  "data_row dec_ops 1 4
     (''00:00:00'' @ CHR 0x09 # ''A1'' @ CHR 0x09 # ''1.0'' @ CHR 0x09 # ''2.0''
        @ CHR 0x09 # ''OVRFLW'' @ CHR 0x09 # ''4.5\<newline>'')
     \<lparr>data_dict = [(''600'', [[[None], [None], [None], [None]]])],
      time_dict = [(''600'', [None])], time_i = Some (- 1), read = Some ''600''\<rparr>
   = Inr \<lparr>data_dict = [(''600'', [[[Some 1], [Some 2], [None], [Some (9 / 2)]]])],
          time_dict = [(''600'', [Some 0])], time_i = Some 0, read = Some ''600''\<rparr>
   \<and> np_get3 [[[Some 1], [Some 2], [None], [Some (9 / 2 :: rat)]]] 0 2 0 = Inr None
   \<and> np_get3 [[[Some 1], [Some 2], [None], [Some (9 / 2 :: rat)]]] 0 3 0 = Inr (Some (9 / 2))"
proof -
  let ?L = "''00:00:00'' @ CHR 0x09 # ''A1'' @ CHR 0x09 # ''1.0'' @ CHR 0x09 # ''2.0''
        @ CHR 0x09 # ''OVRFLW'' @ CHR 0x09 # ''4.5\<newline>''"
  let ?s = "\<lparr>data_dict = [(''600'', [[[None :: rat option], [None], [None], [None]]])],
      time_dict = [(''600'', [None])], time_i = Some (- 1), read = Some ''600''\<rparr>"
  let ?g = "[[[Some 1], [Some 2], [None], [Some (9 / 2 :: rat)]]]"
  let ?s' = "\<lparr>data_dict = [(''600'', ?g)],
          time_dict = [(''600'', [Some 0])], time_i = Some 0, read = Some ''600''\<rparr>"
  have toks: "py_split CHR 0x09 (py_strip ?L) =
      [''00:00:00'', ''A1'', ''1.0'', ''2.0'', ''OVRFLW'', ''4.5'']"
    by (simp add: py_strip_def py_isspace_def)
  have row: "data_row dec_ops 1 4 ?L ?s = Inr ?s'"
    by (simp add: data_row_def py_strip_def py_isspace_def py_index_def np_index_def hours_def
        set_time_def np_set1_def py_range_def upto.simps cell_def set_cell_def np_set3_def
        dec_ops_def dec_of_str_def digit_of_def lift2_def Let_def)
  from cell_values [OF row, of 0 2, unfolded toks]
  have a: "np_get3 ?g 0 2 0 = Inr None"
    by (auto simp: py_index_def np_index_def dec_ops_def)
  from cell_values [OF row, of 0 3, unfolded toks]
  have b: "np_get3 ?g 0 3 0 = Inr (Some (9 / 2))"
    by (auto simp: py_index_def np_index_def dec_ops_def dec_of_str_def digit_of_def)
  from row a b show ?thesis by simp
qed

section \<open>More rows than time points\<close>

lemma data_row_step:
  assumes "data_row ops n_rows n_columns line s = Inr s'"
    and "time_i s = Some k" "read s = Some rd" "map_of (time_dict s) rd = Some tv"
  shows "\<exists>tv'. time_i s' = Some (k + 1) \<and> read s' = Some rd
           \<and> map_of (time_dict s') rd = Some tv' \<and> length tv' = length tv
           \<and> np_index (length tv) (k + 1) \<noteq> None"
proof -
  let ?element = "py_split CHR 0x09 (py_strip line)"
  from assms(1,2) obtain h s2 where
    s2: "set_time (s\<lparr>time_i := Some (k + 1)\<rparr>) h = Inr s2"
    and loops: "for_each (\<lambda>row_i. for_each (cell ops n_columns ?element row_i) (py_range n_columns))
       (py_range n_rows) s2 = Inr s'"
    by (auto simp: data_row_def Let_def split: option.splits sum.splits)
  from s2 assms(3,4) obtain tv' where tv': "np_set1 tv (k + 1) h = Inr tv'"
    and s2eq: "s2 = s\<lparr>time_i := Some (k + 1), time_dict := AList.update rd tv' (time_dict s)\<rparr>"
    by (auto simp: set_time_def split: option.splits sum.splits)
  from tv' have "length tv' = length tv" "np_index (length tv) (k + 1) \<noteq> None"
    by (auto simp: np_set1_def split: option.splits)
  moreover from cells_frame [OF loops] s2eq assms(3)
  have "read s' = Some rd" "time_i s' = Some (k + 1)" "map_of (time_dict s') rd = Some tv'"
    by (simp_all add: update_conv')
  ultimately show ?thesis by blast
qed

lemma row_beyond_capacity:
  assumes "\<not> is_header line" and "is_data line"
    and "time_i s = Some k" and "- 1 \<le> k"
    and "read s = Some rd" and "map_of (time_dict s) rd = Some tv"
    and "int (length tv) \<le> k + 1"
  shows "(\<exists>e. organize_line ops n_rows n_columns ntp line s = Inl e)
         \<and> (\<forall>h. hours ops (hd (py_split CHR 0x09 (py_strip line))) = Inr h \<longrightarrow>
               organize_line ops n_rows n_columns ntp line s = Inl IndexError)"
proof -
  let ?element = "py_split CHR 0x09 (py_strip line)"
  have ne: "?element \<noteq> []" by (rule py_split_nonempty)
  then have tok: "py_index ?element 0 = Inr (hd ?element)"
    by (cases ?element) (simp_all add: py_index_def np_index_def)
  have idx: "np_index (length tv) (k + 1) = None"
    using assms(4,7) by (simp add: np_index_def)
  have step: "organize_line ops n_rows n_columns ntp line s = data_row ops n_rows n_columns line s"
    using assms(1,2) by (simp add: organize_line_def)
  have b: "data_row ops n_rows n_columns line s = Inl IndexError"
    if "hours ops (hd ?element) = Inr h" for h
    using that tok idx assms(3,5,6)
    by (simp add: data_row_def Let_def set_time_def np_set1_def)
  have a: "\<exists>e. data_row ops n_rows n_columns line s = Inl e"
  proof (cases "hours ops (hd ?element)")
    case (Inl e)
    with tok assms(3) show ?thesis by (simp add: data_row_def Let_def)
  next
    case (Inr h)
    then show ?thesis using b by blast
  qed
  from a b show ?thesis unfolding step by blast
qed

lemma rows_overflow:
  assumes "\<forall>l \<in> set rows. \<not> is_header l"
    and "time_i s = Some k" "- 1 \<le> k" "read s = Some rd" "map_of (time_dict s) rd = Some tv"
    and "k + 1 \<le> int (length tv)"
    and "int (length tv) < k + 1 + int (length (filter is_data rows))"
  shows "\<exists>e. for_each (organize_line ops n_rows n_columns ntp) rows s = Inl e"
  using assms
proof (induction rows arbitrary: s k tv)
  case Nil
  then show ?case by simp
next
  case (Cons l rows)
  have nh: "\<not> is_header l" using Cons.prems(1) by simp
  show ?case
  proof (cases "is_data l")
    case False
    with nh have "organize_line ops n_rows n_columns ntp l s = Inr s"
      by (simp add: organize_line_def)
    moreover have "\<exists>e. for_each (organize_line ops n_rows n_columns ntp) rows s = Inl e"
      using Cons.prems False by (intro Cons.IH [of s k tv]) simp_all
    ultimately show ?thesis by simp
  next
    case True
    with nh have step: "organize_line ops n_rows n_columns ntp l s = data_row ops n_rows n_columns l s"
      by (simp add: organize_line_def)
    show ?thesis
    proof (cases "data_row ops n_rows n_columns l s")
      case (Inl e)
      with step show ?thesis by simp
    next
      case (Inr s1)
      from data_row_step [OF Inr Cons.prems(2,4,5)] obtain tv' where
        s1: "time_i s1 = Some (k + 1)" "read s1 = Some rd" "map_of (time_dict s1) rd = Some tv'"
        and len: "length tv' = length tv" and ok: "np_index (length tv) (k + 1) \<noteq> None"
        by blast
      from ok Cons.prems(3) have lt: "k + 1 < int (length tv)"
        by (auto simp: np_index_def split: if_splits)
      have "\<exists>e. for_each (organize_line ops n_rows n_columns ntp) rows s1 = Inl e"
        using Cons.prems(1,3,7) s1 len lt True
        by (intro Cons.IH [of s1 "k + 1" tv']) simp_all
      with step Inr show ?thesis by simp
    qed
  qed
qed

lemma too_many_rows_fail:
  assumes "is_header hdr" and "\<forall>l \<in> set rows. \<not> is_header l"
    and "n_time_points ops total_run_time sampling_rate = Inr ntp"
    and "ntp + 1 < int (length (filter is_data rows))"
  shows "\<exists>e. Organize ops (pre @ hdr # rows @ rest) n_rows n_columns total_run_time sampling_rate
           = Inl e"
proof -
  let ?step = "organize_line ops n_rows n_columns ntp"
  have "\<exists>e. for_each ?step (hdr # rows) s = Inl e" for s
  proof (cases "?step hdr s")
    case (Inl e)
    then show ?thesis by simp
  next
    case (Inr s1)
    with assms(1) have nr: "new_read ops n_rows n_columns ntp hdr s = Inr s1"
      by (simp add: organize_line_def)
    then have dims: "0 \<le> ntp + 1"
      by (auto simp: new_read_def np_full3_def np_full1_def Let_def split: if_splits)
    with nr have s1: "time_i s1 = Some (- 1)" "read s1 = Some (butlast hdr)"
      "map_of (time_dict s1) (butlast hdr) = Some (replicate (nat (ntp + 1)) (nan ops))"
      by (auto simp: new_read_def np_full3_def np_full1_def Let_def update_conv' split: if_splits)
    have "\<exists>e. for_each ?step rows s1 = Inl e"
      using assms(2) s1 dims assms(4)
      by (intro rows_overflow [where k = "- 1" and rd = "butlast hdr"
            and tv = "replicate (nat (ntp + 1)) (nan ops)"]) simp_all
    with Inr show ?thesis by simp
  qed
  note mid = this
  have "\<exists>e. for_each ?step (pre @ (hdr # rows) @ rest) init_state = Inl e"
  proof (cases "for_each ?step pre init_state")
    case (Inl e)
    then show ?thesis by (simp add: for_each_append)
  next
    case (Inr s0)
    from mid [of s0] obtain e where "for_each ?step (hdr # rows) s0 = Inl e" ..
    with Inr show ?thesis
      by (simp only: for_each_append sum.case) simp
  qed
  with assms(3) show ?thesis
    by (auto simp: Organize_def)
qed

text \<open>
  C9. A read whose header is followed by more data rows than the \<open>n_time_points + 1\<close>
  entries of its arrays makes the call fail: no row is dropped and no index wraps around.
  The row that fails is the one whose time index has reached the length of the time
  vector; it raises \<open>IndexError\<close> at line 57 (when its timestamp cannot be read, the
  timestamp's own error comes first, in lines 51-55).
\<close>

theorem capacity_exceeded:
  "(is_header hdr \<and> (\<forall>l \<in> set rows. \<not> is_header l)
      \<and> n_time_points ops total_run_time sampling_rate = Inr ntp
      \<and> ntp + 1 < int (length (filter is_data rows))
    \<longrightarrow> (\<exists>e. Organize ops (pre @ hdr # rows @ rest) n_rows n_columns
                total_run_time sampling_rate = Inl e))
   \<and> (\<not> is_header line \<and> is_data line
        \<and> time_i s = Some k \<and> - 1 \<le> k
        \<and> read s = Some rd \<and> map_of (time_dict s) rd = Some tv
        \<and> int (length tv) \<le> k + 1
      \<longrightarrow> (\<exists>e. organize_line ops n_rows n_columns n line s = Inl e)
          \<and> (\<forall>h. hours ops (hd (py_split CHR 0x09 (py_strip line))) = Inr h \<longrightarrow>
                organize_line ops n_rows n_columns n line s = Inl IndexError))"
  using too_many_rows_fail [of hdr rows ops total_run_time sampling_rate ntp pre rest
      n_rows n_columns]
    row_beyond_capacity [of line s k rd tv ops n_rows n_columns n]
  by blast

theorem capacity_exceeded_witness:
  "(\<exists>e. Organize dec_ops
          ([] @ ''600\<newline>''
             # [''0:00:00'' @ CHR 0x09 # ''A1'' @ CHR 0x09 # ''7\<newline>'',
                ''0:10:00'' @ CHR 0x09 # ''A1'' @ CHR 0x09 # ''8\<newline>''] @ [])
          1 1 (Some 0) (Some 1) = Inl e)
   \<and> organize_line dec_ops 1 1 0 (''0:10:00'' @ CHR 0x09 # ''A1'' @ CHR 0x09 # ''8\<newline>'')
        \<lparr>data_dict = [(''600'', [[[Some 7]]])], time_dict = [(''600'', [Some 0])],
         time_i = Some 0, read = Some ''600''\<rparr>
       = Inl IndexError"
proof -
  let ?r1 = "''0:00:00'' @ CHR 0x09 # ''A1'' @ CHR 0x09 # ''7\<newline>''"
  let ?r2 = "''0:10:00'' @ CHR 0x09 # ''A1'' @ CHR 0x09 # ''8\<newline>''"
  let ?s = "\<lparr>data_dict = [(''600'', [[[Some (7 :: rat)]]])], time_dict = [(''600'', [Some 0])],
             time_i = Some 0, read = Some ''600''\<rparr>"
  note c = capacity_exceeded [of "''600\<newline>''" "[?r1, ?r2]" dec_ops "Some 0" "Some 1" 0
      "[]" "[]" 1 1 ?r2 ?s 0 "''600''" "[Some 0]" 0]
  have n: "n_time_points dec_ops (Some 0) (Some 1) = Inr 0"
    by (simp add: n_time_points_def py_int_def dec_ops_def lift2_def)
  have g: "is_header ''600\<newline>'' \<and> (\<forall>l \<in> set [?r1, ?r2]. \<not> is_header l)
      \<and> (0::int) + 1 < int (length (filter is_data [?r1, ?r2]))"
    by (simp add: is_header_def is_data_def)
  have l: "\<not> is_header ?r2 \<and> is_data ?r2 \<and> time_i ?s = Some 0 \<and> - 1 \<le> (0::int)
      \<and> read ?s = Some ''600'' \<and> map_of (time_dict ?s) ''600'' = Some [Some 0]
      \<and> int (length [Some (0::rat)]) \<le> 0 + 1"
    by (simp add: is_header_def is_data_def)
  have h: "hours dec_ops (hd (py_split CHR 0x09 (py_strip ?r2))) = Inr (Some (1 / 6))"
    by (simp add: py_strip_def py_isspace_def hours_def py_index_def np_index_def
        dec_ops_def dec_of_str_def digit_of_def lift2_def Let_def)
  from c n g have "\<exists>e. Organize dec_ops ([] @ ''600\<newline>'' # [?r1, ?r2] @ [])
      1 1 (Some 0) (Some 1) = Inl e"
    by blast
  moreover from c l h have "organize_line dec_ops 1 1 0 ?r2 ?s = Inl IndexError"
    by blast
  ultimately show ?thesis by blast
qed

section \<open>The shape of the returned arrays\<close>

lemma update_all:
  assumes "\<forall>p \<in> set al. P (snd p)" and "P v"
  shows "\<forall>p \<in> set (AList.update k v al). P (snd p)"
  using assms by (induction al) auto

lemma has_shape_full:
  "has_shape (replicate a (replicate b (replicate c v))) a b c"
  by (simp add: has_shape_def)

lemma has_shape_set3:
  assumes "np_set3 g r c t v = Inr g'" and "has_shape g a b d"
  shows "has_shape g' a b d"
proof -
  from assms(1) obtain r' c' t' where
    g': "g' = g[r' := (g ! r')[c' := (g ! r' ! c')[t' := v]]]"
    and lt: "r' < length g" "c' < length (g ! r')"
    by (auto simp: np_set3_def split: option.splits dest: np_index_less)
  let ?col = "(g ! r' ! c')[t' := v]"
  let ?row = "(g ! r')[c' := ?col]"
  have row: "g ! r' \<in> set g" using lt by simp
  then have col: "g ! r' ! c' \<in> set (g ! r')" using lt by simp
  have "length ?row = b \<and> (\<forall>col \<in> set ?row. length col = d)"
  proof (intro conjI ballI)
    show "length ?row = b" using assms(2) row by (simp add: has_shape_def)
    fix x assume "x \<in> set ?row"
    then have "x \<in> insert ?col (set (g ! r'))"
      using set_update_subset_insert by fast
    then show "length x = d"
      using assms(2) row col by (auto simp: has_shape_def)
  qed
  moreover have "set g' \<subseteq> insert ?row (set g)"
    unfolding g' by (rule set_update_subset_insert)
  ultimately show ?thesis
    using assms(2) unfolding has_shape_def g' by auto
qed

lemma new_read_shapes:
  assumes "new_read ops n_rows n_columns ntp line s = Inr s'"
    and "shapes_ok n_rows n_columns ntp s"
  shows "shapes_ok n_rows n_columns ntp s'"
proof -
  from assms(1) have dims: "0 \<le> n_rows" "0 \<le> n_columns" "0 \<le> ntp + 1"
    by (auto simp: new_read_def np_full3_def np_full1_def Let_def split: if_splits)
  from assms(1) new_read_ok [OF dims, of ops line s]
  have "data_dict s' = AList.update (butlast line)
          (replicate (nat n_rows) (replicate (nat n_columns)
            (replicate (nat (ntp + 1)) (nan ops)))) (data_dict s)"
    and "time_dict s' =
          AList.update (butlast line) (replicate (nat (ntp + 1)) (nan ops)) (time_dict s)"
    by auto
  moreover have "\<forall>p \<in> set (AList.update (butlast line)
          (replicate (nat n_rows) (replicate (nat n_columns)
            (replicate (nat (ntp + 1)) (nan ops)))) (data_dict s)).
        has_shape (snd p) (nat n_rows) (nat n_columns) (nat (ntp + 1))"
    using assms(2) by (intro update_all has_shape_full) (simp add: shapes_ok_def)
  moreover have "\<forall>p \<in> set (AList.update (butlast line)
          (replicate (nat (ntp + 1)) (nan ops)) (time_dict s)).
        length (snd p) = nat (ntp + 1)"
    using assms(2) by (intro update_all) (simp_all add: shapes_ok_def)
  ultimately show ?thesis
    by (simp add: shapes_ok_def)
qed

lemma set_cell_shapes:
  assumes "set_cell s r c v = Inr s'" and "shapes_ok n_rows n_columns ntp s"
  shows "shapes_ok n_rows n_columns ntp s'"
proof -
  from assms(1) obtain rd g t g' where g: "map_of (data_dict s) rd = Some g"
    and g': "np_set3 g r c t v = Inr g'"
    and s': "s' = s\<lparr>data_dict := AList.update rd g' (data_dict s)\<rparr>"
    by (auto simp: set_cell_def split: option.splits sum.splits)
  from g have "(rd, g) \<in> set (data_dict s)" by (rule map_of_SomeD)
  with assms(2) have "has_shape g (nat n_rows) (nat n_columns) (nat (ntp + 1))"
    by (auto simp: shapes_ok_def)
  with g' have "has_shape g' (nat n_rows) (nat n_columns) (nat (ntp + 1))"
    by (rule has_shape_set3)
  then have "\<forall>p \<in> set (AList.update rd g' (data_dict s)).
        has_shape (snd p) (nat n_rows) (nat n_columns) (nat (ntp + 1))"
    using assms(2) by (intro update_all) (simp_all add: shapes_ok_def)
  with assms(2) show ?thesis
    by (simp add: shapes_ok_def s')
qed

lemma set_time_shapes:
  assumes "set_time s h = Inr s'" and "shapes_ok n_rows n_columns ntp s"
  shows "shapes_ok n_rows n_columns ntp s'"
proof -
  from assms(1) obtain rd tv t tv' where tv: "map_of (time_dict s) rd = Some tv"
    and tv': "np_set1 tv t h = Inr tv'"
    and s': "s' = s\<lparr>time_dict := AList.update rd tv' (time_dict s)\<rparr>"
    by (auto simp: set_time_def split: option.splits sum.splits)
  from tv have "(rd, tv) \<in> set (time_dict s)" by (rule map_of_SomeD)
  with assms(2) have "length tv = nat (ntp + 1)"
    by (auto simp: shapes_ok_def)
  with tv' have "length tv' = nat (ntp + 1)"
    by (auto simp: np_set1_def split: option.splits)
  then have "\<forall>p \<in> set (AList.update rd tv' (time_dict s)). length (snd p) = nat (ntp + 1)"
    using assms(2) by (intro update_all) (simp_all add: shapes_ok_def)
  with assms(2) show ?thesis
    by (simp add: shapes_ok_def s')
qed

lemma cell_shapes:
  assumes "cell ops n_columns element r c s = Inr s'" and "shapes_ok n_rows n_columns ntp s"
  shows "shapes_ok n_rows n_columns ntp s'"
proof -
  from cell_unfold [OF assms(1)] obtain s1 v where
    s1: "s1 = s \<or> set_cell s r c (nan ops) = Inr s1" and s': "set_cell s1 r c v = Inr s'"
    by blast
  from s1 assms(2) have "shapes_ok n_rows n_columns ntp s1"
    by (auto dest: set_cell_shapes)
  with s' show ?thesis by (rule set_cell_shapes)
qed

lemma data_row_shapes:
  assumes "data_row ops n_rows n_columns line s = Inr s'" and "shapes_ok n_rows n_columns ntp s"
  shows "shapes_ok n_rows n_columns ntp s'"
proof -
  let ?element = "py_split CHR 0x09 (py_strip line)"
  let ?P = "shapes_ok n_rows n_columns ntp"
  from assms(1) obtain k h s2 where
    s2: "set_time (s\<lparr>time_i := Some k\<rparr>) h = Inr s2"
    and loops: "for_each (\<lambda>row_i. for_each (cell ops n_columns ?element row_i) (py_range n_columns))
       (py_range n_rows) s2 = Inr s'"
    by (auto simp: data_row_def Let_def split: option.splits sum.splits)
  from assms(2) have "?P (s\<lparr>time_i := Some k\<rparr>)"
    by (simp add: shapes_ok_def)
  with s2 have "?P s2" by (rule set_time_shapes)
  have inner: "?P u'"
    if "for_each (cell ops n_columns ?element r) (py_range n_columns) u = Inr u'" "?P u" for r u u'
    using that(1) that(2)
    by (rule for_each_preserves [where P = ?P, rotated]) (auto dest: cell_shapes)
  from loops \<open>?P s2\<close> show ?thesis
    by (rule for_each_preserves [where P = ?P, rotated]) (auto dest: inner)
qed

lemma organize_line_shapes:
  assumes "organize_line ops n_rows n_columns ntp line s = Inr s'"
    and "shapes_ok n_rows n_columns ntp s"
  shows "shapes_ok n_rows n_columns ntp s'"
  using assms
  by (auto simp: organize_line_def split: if_splits dest: new_read_shapes data_row_shapes)

lemma new_read_dims:
  assumes "new_read ops n_rows n_columns ntp line s = Inr s'"
  shows "0 \<le> n_rows \<and> 0 \<le> n_columns \<and> 0 \<le> ntp + 1"
  using assms by (auto simp: new_read_def np_full3_def np_full1_def Let_def split: if_splits)

lemma organize_line_dims:
  assumes "organize_line ops n_rows n_columns ntp line s = Inr s'"
    and "dims_ok n_rows n_columns ntp s"
  shows "dims_ok n_rows n_columns ntp s'"
proof (cases "is_header line")
  case True
  with assms(1) have "new_read ops n_rows n_columns ntp line s = Inr s'"
    by (simp add: organize_line_def)
  from new_read_dims [OF this] show ?thesis by (simp add: dims_ok_def)
next
  case False
  show ?thesis
  proof (cases "data_dict s = [] \<and> time_dict s = []")
    case ne: False
    with assms(2) show ?thesis by (simp add: dims_ok_def)
  next
    case True
    show ?thesis
    proof (cases "is_data line")
      case d: False
      with False assms show ?thesis by (simp add: organize_line_def)
    next
      case d: True
      with False assms(1) have row: "data_row ops n_rows n_columns line s = Inr s'"
        by (simp add: organize_line_def)
      then have "False"
        using True
        by (auto simp: data_row_def Let_def set_time_def split: option.splits sum.splits)
      then show ?thesis ..
    qed
  qed
qed

text \<open>
  Line 27 on its own: when it returns \<open>T\<close>, the divisor is not zero, the float quotient
  \<open>total_run_time/sampling_rate\<close> is finite, and \<open>T\<close> is its value cut off towards zero.
\<close>

lemma n_time_points_value:
  assumes "n_time_points ops total_run_time sampling_rate = Inr T"
  shows "\<not> fzero ops sampling_rate
         \<and> (\<exists>q. fval ops (fdiv ops total_run_time sampling_rate) = Finite q
                \<and> T = (if 0 \<le> q then \<lfloor>q\<rfloor> else \<lceil>q\<rceil>))"
  using assms
  by (auto simp: n_time_points_def py_int_def split: if_splits fvalue.splits)

text \<open>
  C3. When the call returns, the float quotient \<open>total_run_time/sampling_rate\<close> of line 27
  has a finite value \<open>q\<close>, and with \<open>T\<close> the floor of \<open>q\<close> (for a quotient that is not
  negative, as that of positive arguments; a negative one is cut off towards zero) every
  grid of the returned data mapping has shape \<open>(n_rows, n_columns, T + 1)\<close> and every
  returned time vector has length \<open>T + 1\<close>; if anything is returned at all, the three
  dimensions are not negative. The quotient is the float that the division of the runtime
  returns, for every such division: \<open>0.3/0.1\<close> is the float 2.9999999999999996 there,
  and \<open>T\<close> is 2.
\<close>

theorem returned_shapes:
  assumes "Organize ops lines n_rows n_columns total_run_time sampling_rate = Inr (dd, td)"
  shows "\<exists>q T. fval ops (fdiv ops total_run_time sampling_rate) = Finite q
           \<and> T = (if 0 \<le> q then \<lfloor>q\<rfloor> else \<lceil>q\<rceil>)
           \<and> (\<forall>p \<in> set dd. has_shape (snd p) (nat n_rows) (nat n_columns) (nat (T + 1)))
           \<and> (\<forall>p \<in> set td. length (snd p) = nat (T + 1))
           \<and> (dd = [] \<and> td = [] \<or> 0 \<le> n_rows \<and> 0 \<le> n_columns \<and> 0 \<le> T + 1)"
proof -
  from assms obtain T s where T: "n_time_points ops total_run_time sampling_rate = Inr T"
    and run: "for_each (organize_line ops n_rows n_columns T) lines init_state = Inr s"
    and res: "dd = data_dict s" "td = time_dict s"
    by (auto simp: Organize_def split: sum.splits)
  from n_time_points_value [OF T] obtain q where
    q: "fval ops (fdiv ops total_run_time sampling_rate) = Finite q"
    and Tq: "T = (if 0 \<le> q then \<lfloor>q\<rfloor> else \<lceil>q\<rceil>)"
    by blast
  let ?P = "\<lambda>s. shapes_ok n_rows n_columns T s \<and> dims_ok n_rows n_columns T s"
  have "?P (init_state :: 'a pstate)"
    by (simp add: shapes_ok_def dims_ok_def init_state_def)
  with run have "?P s"
    by (rule for_each_preserves [where P = ?P, rotated])
      (auto dest: organize_line_shapes organize_line_dims)
  then have "(\<forall>p \<in> set dd. has_shape (snd p) (nat n_rows) (nat n_columns) (nat (T + 1)))
      \<and> (\<forall>p \<in> set td. length (snd p) = nat (T + 1))
      \<and> (dd = [] \<and> td = [] \<or> 0 \<le> n_rows \<and> 0 \<le> n_columns \<and> 0 \<le> T + 1)"
    using res by (auto simp: shapes_ok_def dims_ok_def)
  with q Tq show ?thesis
    by blast
qed

theorem returned_shapes_witness:
  "Organize dec_ops [''600\<newline>'', ''0:00:00'' @ CHR 0x09 # ''A1'' @ CHR 0x09 # ''7\<newline>'']
     1 1 (Some (5 / 2)) (Some 1)
   = Inr ([(''600'', [[[Some 7, None, None]]])], [(''600'', [Some 0, None, None])])
   \<and> fval dec_ops (fdiv dec_ops (Some (5 / 2)) (Some 1)) = Finite (5 / 2)
   \<and> \<lfloor>5 / 2 :: rat\<rfloor> = 2
   \<and> has_shape [[[Some (7 :: rat), None, None]]] 1 1 (nat (\<lfloor>5 / 2 :: rat\<rfloor> + 1))
   \<and> length [Some (0 :: rat), None, None] = nat (\<lfloor>5 / 2 :: rat\<rfloor> + 1)"
proof -
  let ?lines = "[''600\<newline>'', ''0:00:00'' @ CHR 0x09 # ''A1'' @ CHR 0x09 # ''7\<newline>'']"
  have fl: "\<lfloor>5 / 2 :: rat\<rfloor> = 2"
    by (rule floor_unique) simp_all
  have q: "fval dec_ops (fdiv dec_ops (Some (5 / 2)) (Some 1)) = Finite (5 / 2)"
    by (simp add: dec_ops_def lift2_def)
  have n: "n_time_points dec_ops (Some (5 / 2)) (Some 1) = Inr 2"
    using fl by (simp add: n_time_points_def py_int_def dec_ops_def lift2_def)
  have loop: "for_each (organize_line dec_ops 1 1 2) ?lines init_state
      = Inr \<lparr>data_dict = [(''600'', [[[Some 7, None, None]]])],
             time_dict = [(''600'', [Some 0, None, None])],
             time_i = Some 0, read = Some ''600''\<rparr>"
    by (simp add: organize_line_def is_header_def is_data_def new_read_def
        np_full3_def np_full1_def init_state_def data_row_def py_strip_def py_isspace_def
        py_index_def np_index_def hours_def set_time_def np_set1_def py_range_def upto.simps
        cell_def set_cell_def np_set3_def dec_ops_def dec_of_str_def digit_of_def lift2_def
        Let_def eval_nat_numeral)
  have run: "Organize dec_ops ?lines 1 1 (Some (5 / 2)) (Some 1)
      = Inr ([(''600'', [[[Some 7, None, None]]])], [(''600'', [Some 0, None, None])])"
    by (simp only: Organize_def n loop sum.case) simp
  from returned_shapes [OF run] obtain q' T where
    a: "fval dec_ops (fdiv dec_ops (Some (5 / 2)) (Some 1)) = Finite q'"
    and b: "T = (if 0 \<le> q' then \<lfloor>q'\<rfloor> else \<lceil>q'\<rceil>)"
    and c: "\<forall>p \<in> set [(''600'', [[[Some (7 :: rat), None, None]]])].
           has_shape (snd p) (nat 1) (nat 1) (nat (T + 1))"
    and d: "\<forall>p \<in> set [(''600'', [Some (0 :: rat), None, None])]. length (snd p) = nat (T + 1)"
    by blast
  from a have qe: "q' = 5 / 2"
    unfolding q by simp
  have Te: "T = \<lfloor>5 / 2 :: rat\<rfloor>"
    using b unfolding qe by simp
  from c d have "has_shape [[[Some (7 :: rat), None, None]]] 1 1 (nat (\<lfloor>5 / 2 :: rat\<rfloor> + 1))"
    and "length [Some (0 :: rat), None, None] = nat (\<lfloor>5 / 2 :: rat\<rfloor> + 1)"
    unfolding Te by simp_all
  with run q fl show ?thesis by blast
qed

section \<open>A data row of one token\<close>

text \<open>
  Line 64 stores NaN for a row of one token, but line 66 is an \<open>if\<close>, not an \<open>elif\<close>: it
  then reads \<open>element[n_columns*row_i + 2 + column_i]\<close>, which a list of one token does not
  have. With at least one row and one column, such a data row never returns.
\<close>

lemma one_token_row_fails:
  assumes "length (py_split CHR 0x09 (py_strip line)) = 1"
    and "0 < n_rows" and "0 < n_columns"
  shows "\<exists>e. data_row ops n_rows n_columns line s = Inl e"
proof (cases "data_row ops n_rows n_columns line s")
  case (Inl e)
  then show ?thesis by blast
next
  case (Inr s')
  from data_row_cell_ok [OF Inr, of 0 0] assms(2,3)
  obtain tok where "py_index (py_split CHR 0x09 (py_strip line)) 2 = Inr tok"
    by (auto simp: cell_ok_def)
  with assms(1) have False
    by (simp add: py_index_def np_index_def)
  then show ?thesis ..
qed

text \<open>
  C6. A data row of exactly one token is meant to store NaN in every cell of its time
  point (line 64). It does not: the call below has one read, one cell and the one-token
  row "00:00:00", and it raises \<open>IndexError\<close> instead of returning arrays.
\<close>

theorem one_token_row_raises:
  "Organize dec_ops [''600\<newline>'', ''00:00:00\<newline>''] 1 1 (Some 1) (Some 1) = Inl IndexError"
proof -
  have n: "n_time_points dec_ops (Some 1) (Some 1) = Inr 1"
    by (simp add: n_time_points_def py_int_def dec_ops_def lift2_def)
  have loop: "for_each (organize_line dec_ops 1 1 1) [''600\<newline>'', ''00:00:00\<newline>'']
      init_state = Inl IndexError"
    by (simp add: organize_line_def is_header_def is_data_def new_read_def
        np_full3_def np_full1_def init_state_def data_row_def py_strip_def py_isspace_def
        py_index_def np_index_def hours_def set_time_def np_set1_def py_range_def upto.simps
        cell_def set_cell_def np_set3_def dec_ops_def dec_of_str_def digit_of_def lift2_def
        Let_def eval_nat_numeral)
  show ?thesis
    by (simp only: Organize_def n loop sum.case)
qed

end
